theory Spec2Isabelle
  imports Complex_Main "HOL-Library.Multiset"
begin

section \<open>Particle ordering of \<open>scripts/train_linformer.py\<close>\<close>

text \<open>
  The script reorders the particle rows of every event of a three-dimensional array
  \<open>x\<close> of shape \<open>(n_events, n_particles, feat_dim)\<close> before training: by one of five
  scalar keys (\<open>main\<close>, the \<open>sort_by\<close> chain) or by FastJet clusters
  (\<open>sort_events_by_cluster\<close>).

  Array entries are modelled as reals. The ordering only compares keys, so what is
  proved holds for any keys that are totally ordered (floating-point rounding changes
  the values of the keys, not how they are ordered; NaN keys are outside the model).
\<close>

subsection \<open>Errors and arrays\<close>

datatype error = ValueError | IndexError | FastJetError

definition bind :: "error + 'a \<Rightarrow> ('a \<Rightarrow> error + 'b) \<Rightarrow> error + 'b" where
  "bind m f = (case m of Inl e \<Rightarrow> Inl e | Inr v \<Rightarrow> f v)"

type_synonym row = "real list"
type_synonym event = "row list"

text \<open>A numpy array with three axes: its shape and its entries.\<close>

record ndarray =
  n_events :: nat
  n_particles :: nat
  feat_dim :: nat
  data :: "event list"

definition wf_array :: "ndarray \<Rightarrow> bool" where
  "wf_array x \<longleftrightarrow>
     length (data x) = n_events x \<and>
     (\<forall>ev \<in> set (data x). length ev = n_particles x \<and>
        (\<forall>r \<in> set ev. length r = feat_dim x))"

text \<open>\<open>np.zeros_like(x)\<close>.\<close>

definition zeros_like :: "ndarray \<Rightarrow> ndarray" where
  "zeros_like x =
     x\<lparr>data := replicate (n_events x) (replicate (n_particles x) (replicate (feat_dim x) 0))\<rparr>"

subsection \<open>The scalar keys of \<open>main\<close>\<close>

text \<open>\<open>x[:, :, c]\<close>: an IndexError when the last axis has no position \<open>c\<close>.\<close>

definition column :: "ndarray \<Rightarrow> nat \<Rightarrow> error + real list list" where
  "column x c =
     (if c < feat_dim x then Inr (map (map (\<lambda>r. r ! c)) (data x)) else Inl IndexError)"

text \<open>Elementwise operations on two-dimensional arrays of one shape.\<close>

definition elementwise :: "(real \<Rightarrow> real \<Rightarrow> real) \<Rightarrow> real list list \<Rightarrow> real list list
    \<Rightarrow> real list list" where
  "elementwise f a b = map2 (map2 f) a b"

text \<open>\<open>np.sqrt(x[:, :, 1]**2 + x[:, :, 2]**2)\<close>.\<close>

definition delta_R_key :: "ndarray \<Rightarrow> error + real list list" where
  "delta_R_key x =
     bind (column x 1) (\<lambda>eta. bind (column x 2) (\<lambda>phi.
       Inr (elementwise (\<lambda>e p. sqrt (e\<^sup>2 + p\<^sup>2)) eta phi)))"

text \<open>The key of each of the five scalar selectors; \<open>None\<close> for any other selector.\<close>

definition sort_key_of :: "string \<Rightarrow> ndarray \<Rightarrow> (error + real list list) option" where
  "sort_key_of sel x =
     (if sel = ''pt'' then Some (column x 0)
      else if sel = ''eta'' then Some (column x 1)
      else if sel = ''phi'' then Some (column x 2)
      else if sel = ''delta_R'' then Some (delta_R_key x)
      else if sel = ''kt'' then
        Some (bind (column x 0) (\<lambda>pt. bind (delta_R_key x) (\<lambda>dr.
          Inr (elementwise (\<lambda>a b. a * b) pt dr))))
      else None)"

subsection \<open>\<open>argsort\<close>, reversal and \<open>take_along_axis\<close>\<close>

text \<open>
  \<open>np.argsort\<close> is numpy's and, like the clustering, a parameter of the model: with the
  default \<open>kind\<close> numpy does not say in which order slots with equal keys come out, and
  the sort it runs depends on the row and on the machine. What numpy documents is all
  that is assumed of it: for every row it returns the slot indices, each once, in an
  order along which the keys never decrease.
\<close>

definition is_argsort :: "(real list \<Rightarrow> nat list) \<Rightarrow> bool" where
  "is_argsort argsort \<longleftrightarrow>
     (\<forall>ks. distinct (argsort ks) \<and> set (argsort ks) = {0..<length ks} \<and>
           sorted (map (\<lambda>i. ks ! i) (argsort ks)))"

text \<open>\<open>np.argsort(key, axis=1)[:, ::-1]\<close>.\<close>

definition sort_idx :: "(real list \<Rightarrow> nat list) \<Rightarrow> real list list \<Rightarrow> nat list list" where
  "sort_idx argsort key = map (\<lambda>ks. rev (argsort ks)) key"

text \<open>
  \<open>np.take_along_axis(x, sort_idx[:, :, None], axis=1)\<close>: row \<open>k\<close> of event \<open>e\<close> of the
  result is row \<open>sort_idx[e][k]\<close> of event \<open>e\<close> of \<open>x\<close>; an index that is no row of the
  event is an IndexError.
\<close>

definition take_along_axis :: "ndarray \<Rightarrow> nat list list \<Rightarrow> error + ndarray" where
  "take_along_axis x idx =
     (if length idx = n_events x \<and> (\<forall>p \<in> set idx. \<forall>j \<in> set p. j < n_particles x)
      then Inr (x\<lparr>data := map2 (\<lambda>ev p. map (\<lambda>j. ev ! j) p) (data x) idx\<rparr>)
      else Inl IndexError)"

text \<open>One branch of the \<open>sort_by\<close> chain, from the key on.\<close>

definition scalar_sort :: "(real list \<Rightarrow> nat list) \<Rightarrow> ndarray \<Rightarrow> real list list
    \<Rightarrow> error + ndarray" where
  "scalar_sort argsort x key = take_along_axis x (sort_idx argsort key)"

subsection \<open>The FastJet interface\<close>

text \<open>
  FastJet is a library outside the repository; the clustering is a parameter of the model.
  A \<open>PseudoJet\<close> carries its four-momentum and the user index set by the caller; a jet
  returned by \<open>inclusive_jets()\<close> has its \<open>perp()\<close> and its \<open>constituents()\<close>.
  \<open>JetDefinition\<close> and the clustering may raise.
\<close>

record pseudojet =
  px :: real
  py :: real
  pz :: real
  E :: real
  user_index :: int

record jet =
  perp :: real
  constituents :: "pseudojet list"

record 'jd fastjet =
  JetDefinition :: "real \<Rightarrow> error + 'jd"
  inclusive_jets :: "'jd \<Rightarrow> pseudojet list \<Rightarrow> error + jet list"

subsection \<open>One event of \<open>sort_events_by_cluster\<close>\<close>

text \<open>\<open>event[:, c]\<close> for an event of shape \<open>(n_particles, feat_dim)\<close>.\<close>

definition event_column :: "nat \<Rightarrow> event \<Rightarrow> nat \<Rightarrow> error + real list" where
  "event_column fd event c =
     (if c < fd then Inr (map (\<lambda>r. r ! c) event) else Inl IndexError)"

text \<open>The four-vectors \<open>ps\<close>, with \<open>set_user_index(j)\<close> on the \<open>j\<close>-th.\<close>

definition build_pseudojets :: "nat \<Rightarrow> nat \<Rightarrow> event \<Rightarrow> error + pseudojet list" where
  "build_pseudojets np fd event =
     bind (event_column fd event 0) (\<lambda>pts.
     bind (event_column fd event 1) (\<lambda>etas.
     bind (event_column fd event 2) (\<lambda>phis.
       Inr (map (\<lambda>j. \<lparr>px = pts ! j * cos (phis ! j), py = pts ! j * sin (phis ! j),
                       pz = pts ! j * sinh (etas ! j), E = pts ! j * cosh (etas ! j),
                       user_index = int j\<rparr>) [0..<np]))))"

text \<open>
  \<open>sorted(seq.inclusive_jets(), key=lambda jet: jet.perp(), reverse=True)\<close>. Python's
  \<open>sorted\<close> is stable, and with \<open>reverse=True\<close> elements with equal keys still keep their
  order: the list is reversed, sorted stably, and reversed again.
\<close>

definition sorted_reverse :: "('a \<Rightarrow> real) \<Rightarrow> 'a list \<Rightarrow> 'a list" where
  "sorted_reverse f xs = rev (sort_key f (rev xs))"

text \<open>The two nested loops over jets and constituents that fill \<open>sorted_indices\<close>.\<close>

definition jet_indices :: "jet list \<Rightarrow> int list" where
  "jet_indices jets = concat (map (\<lambda>j. map user_index (constituents j)) jets)"

text \<open>\<open>[idx for idx in range(n_particles) if idx not in sorted_indices]\<close>.\<close>

definition remaining :: "nat \<Rightarrow> int list \<Rightarrow> int list" where
  "remaining np si = filter (\<lambda>idx. idx \<notin> set si) (map int [0..<np])"

text \<open>\<open>sorted_indices\<close> after \<open>extend(remaining)\<close>.\<close>

definition sorted_indices :: "nat \<Rightarrow> jet list \<Rightarrow> int list" where
  "sorted_indices np jets =
     (let si = jet_indices (sorted_reverse perp jets) in si @ remaining np si)"

text \<open>
  \<open>event[sorted_indices]\<close>, indexing the first axis by a list of integers: a negative
  index counts from the end, an index outside \<open>[-n, n)\<close> is an IndexError.
\<close>

definition fancy_index :: "event \<Rightarrow> int list \<Rightarrow> error + event" where
  "fancy_index event idxs =
     (let n = int (length event) in
      if \<forall>i \<in> set idxs. - n \<le> i \<and> i < n
      then Inr (map (\<lambda>i. event ! nat (if i < 0 then i + n else i)) idxs)
      else Inl IndexError)"

text \<open>
  The assignment \<open>sorted_x[start + i] = rows\<close> into a slot of \<open>np\<close> rows: numpy
  broadcasts a single row and refuses any other number of rows with a ValueError.
\<close>

definition assign_rows :: "nat \<Rightarrow> event \<Rightarrow> error + event" where
  "assign_rows np rows =
     (if length rows = np then Inr rows
      else if length rows = 1 then Inr (replicate np (hd rows))
      else Inl ValueError)"

text \<open>The body of the inner loop: the rows that are stored for one event.\<close>

definition reorder_event :: "'jd fastjet \<Rightarrow> 'jd \<Rightarrow> nat \<Rightarrow> nat \<Rightarrow> event \<Rightarrow> error + event" where
  "reorder_event fj jet_def np fd event =
     bind (build_pseudojets np fd event) (\<lambda>ps.
     bind (inclusive_jets fj jet_def ps) (\<lambda>jets.
     bind (fancy_index event (sorted_indices np jets)) (assign_rows np)))"

subsection \<open>The chunk loop of \<open>sort_events_by_cluster\<close>\<close>

text \<open>\<open>range(start, stop, step)\<close>; a zero step is a ValueError.\<close>

function range_up :: "int \<Rightarrow> int \<Rightarrow> int \<Rightarrow> int list" where
  "range_up start stop step =
     (if step \<le> 0 \<or> stop \<le> start then [] else start # range_up (start + step) stop step)"
  by pat_completeness auto
termination
  by (relation "measure (\<lambda>(start, stop, step). nat (stop - start))") auto

function range_down :: "int \<Rightarrow> int \<Rightarrow> int \<Rightarrow> int list" where
  "range_down start stop step =
     (if 0 \<le> step \<or> start \<le> stop then [] else start # range_down (start + step) stop step)"
  by pat_completeness auto
termination
  by (relation "measure (\<lambda>(start, stop, step). nat (start - stop))") auto

definition py_range :: "int \<Rightarrow> int \<Rightarrow> int \<Rightarrow> error + int list" where
  "py_range start stop step =
     (if step = 0 then Inl ValueError
      else if 0 < step then Inr (range_up start stop step)
      else Inr (range_down start stop step))"

text \<open>A slice \<open>xs[lo:hi]\<close> with Python's clamping of the two bounds.\<close>

definition slice_bound :: "nat \<Rightarrow> int \<Rightarrow> nat" where
  "slice_bound n i = (if i < 0 then nat (max 0 (i + int n)) else min n (nat i))"

definition slice :: "'a list \<Rightarrow> int \<Rightarrow> int \<Rightarrow> 'a list" where
  "slice xs lo hi =
     (let l = slice_bound (length xs) lo; h = slice_bound (length xs) hi
      in take (h - l) (drop l xs))"

text \<open>
  The inner loop \<open>for i, event in enumerate(batch)\<close> and the outer loop over the chunk
  starts. The loop body is a parameter: it gets the index \<open>start + i\<close>, the event and
  the state, and an error ends both loops.
\<close>

fun event_loop :: "(int \<Rightarrow> event \<Rightarrow> 's \<Rightarrow> error + 's) \<Rightarrow> int \<Rightarrow> (nat \<times> event) list \<Rightarrow> 's
    \<Rightarrow> error + 's" where
  "event_loop body start [] s = Inr s"
| "event_loop body start ((i, event) # rest) s =
     (case body (start + int i) event s of
        Inl e \<Rightarrow> Inl e
      | Inr s' \<Rightarrow> event_loop body start rest s')"

fun chunk_loop :: "(int \<Rightarrow> event \<Rightarrow> 's \<Rightarrow> error + 's) \<Rightarrow> ndarray \<Rightarrow> int \<Rightarrow> int list \<Rightarrow> 's
    \<Rightarrow> error + 's" where
  "chunk_loop body x batch_size [] s = Inr s"
| "chunk_loop body x batch_size (start # starts) s =
     (let end = min (start + batch_size) (int (n_events x));
          batch = slice (data x) start end
      in case event_loop body start (enumerate 0 batch) s of
           Inl e \<Rightarrow> Inl e
         | Inr s' \<Rightarrow> chunk_loop body x batch_size starts s')"

text \<open>
  The body of the source: \<open>sorted_x[start + i] = event[sorted_indices]\<close>, the state
  being the rows of \<open>sorted_x\<close>.
\<close>

definition store :: "event list \<Rightarrow> int \<Rightarrow> event \<Rightarrow> error + event list" where
  "store sorted_x k rows =
     (let n = int (length sorted_x) in
      if - n \<le> k \<and> k < n then Inr (sorted_x[nat (if k < 0 then k + n else k) := rows])
      else Inl IndexError)"

definition write_event :: "'jd fastjet \<Rightarrow> 'jd \<Rightarrow> ndarray \<Rightarrow> int \<Rightarrow> event \<Rightarrow> event list
    \<Rightarrow> error + event list" where
  "write_event fj jet_def x k event sorted_x =
     bind (reorder_event fj jet_def (n_particles x) (feat_dim x) event) (store sorted_x k)"

definition sort_events_by_cluster :: "'jd fastjet \<Rightarrow> ndarray \<Rightarrow> real \<Rightarrow> int
    \<Rightarrow> error + ndarray" where
  "sort_events_by_cluster fj x R batch_size =
     (let sorted_x = data (zeros_like x) in
      bind (JetDefinition fj R) (\<lambda>jet_def.
      bind (py_range 0 (int (n_events x)) batch_size) (\<lambda>starts.
      bind (chunk_loop (write_event fj jet_def x) x batch_size starts sorted_x) (\<lambda>sorted_x'.
        Inr (x\<lparr>data := sorted_x'\<rparr>)))))"

subsection \<open>The sorting step of \<open>main\<close>\<close>

text \<open>
  The parsed options that the sorting step can read. \<open>num_particles\<close> is the declared
  particle count; \<open>main\<close> uses it for the names of the input files and of the output
  directory.
\<close>

record args =
  num_particles :: int
  sort_by :: string
  cluster_R :: real
  cluster_batch_size :: int

definition main_sort :: "(real list \<Rightarrow> nat list) \<Rightarrow> 'jd fastjet \<Rightarrow> args \<Rightarrow> ndarray
    \<Rightarrow> error + ndarray" where
  "main_sort argsort fj a x =
     (case sort_key_of (sort_by a) x of
        Some key \<Rightarrow> bind key (scalar_sort argsort x)
      | None \<Rightarrow>
          if sort_by a = ''cluster''
          then sort_events_by_cluster fj x (cluster_R a) (cluster_batch_size a)
          else Inl ValueError)"

subsection \<open>Sequential processing\<close>

text \<open>
  The reference the chunk loop is compared with: the loop body applied to the events one
  after the other, event \<open>k\<close> at index \<open>k\<close>, stopping at the first error.
\<close>

fun run_events :: "(int \<Rightarrow> event \<Rightarrow> 's \<Rightarrow> error + 's) \<Rightarrow> int \<Rightarrow> event list \<Rightarrow> 's \<Rightarrow> error + 's" where
  "run_events body k [] s = Inr s"
| "run_events body k (event # rest) s =
     (case body k event s of Inl e \<Rightarrow> Inl e | Inr s' \<Rightarrow> run_events body (k + 1) rest s')"

subsection \<open>The key of one row\<close>

text \<open>
  What each selector computes for a single particle row; the key arrays of
  \<open>sort_key_of\<close> are this function applied to every row (lemma \<open>sort_key_of_Inr\<close>).
\<close>

definition row_key :: "string \<Rightarrow> row \<Rightarrow> real" where
  "row_key sel r =
     (if sel = ''pt'' then r ! 0
      else if sel = ''eta'' then r ! 1
      else if sel = ''phi'' then r ! 2
      else if sel = ''delta_R'' then sqrt ((r ! 1)\<^sup>2 + (r ! 2)\<^sup>2)
      else r ! 0 * sqrt ((r ! 1)\<^sup>2 + (r ! 2)\<^sup>2))"

subsection \<open>Example inputs\<close>

text \<open>
  Three events of two particles with the columns \<open>pt\<close>, \<open>eta\<close>, \<open>phi\<close> and one more
  feature column; the second event has two equal \<open>pt\<close>.
\<close>

definition example_x :: ndarray where
  "example_x = \<lparr>n_events = 3, n_particles = 2, feat_dim = 4,
     data = [[[5, 0, 0, 10], [8, 1, 0, 11]],
             [[2, 0, 0, 20], [2, 1, 0, 21]],
             [[3, 0, 0, 30], [1, 2, 0, 31]]]\<rparr>"

text \<open>One event of two particles with equal \<open>pt\<close>, \<open>eta\<close> and \<open>phi\<close>.\<close>

definition tie_x :: ndarray where
  "tie_x = \<lparr>n_events = 1, n_particles = 2, feat_dim = 4,
     data = [[[2, 0, 0, 20], [2, 0, 0, 21]]]\<rparr>"

text \<open>The example of the specification: one event with \<open>pt = [5, 2, 8]\<close>.\<close>

definition spec_x :: ndarray where
  "spec_x = \<lparr>n_events = 1, n_particles = 3, feat_dim = 3,
     data = [[[5, 0, 0], [2, 0, 0], [8, 0, 0]]]\<rparr>"

text \<open>
  An \<open>argsort\<close> to run the model on: an insertion sort of the slot indices. It is what
  numpy returns for a row without equal keys, and for the two equal keys of \<open>tie_x\<close>.
\<close>

definition insertion_argsort :: "real list \<Rightarrow> nat list" where
  "insertion_argsort ks = sort_key (\<lambda>i. ks ! i) [0..<length ks]"

definition example_args :: "string \<Rightarrow> int \<Rightarrow> args" where
  "example_args sel batch_size =
     \<lparr>num_particles = 2, sort_by = sel, cluster_R = 0.4, cluster_batch_size = batch_size\<rparr>"

text \<open>
  Two clusterings to run the model on. The first makes every particle a jet of its own,
  in the order of the input, as a sequential recombination does when no two particles are
  within the radius of each other. The second returns one jet that holds every particle
  twice; no clustering does that, it is the input of the duplicate check.
\<close>

text \<open>
  Two jets of equal \<open>perp\<close>, of one particle each, the one of particle 1 first: what a
  clustering returns for two back-to-back particles of equal momentum when it lists its
  jets from the last one found.
\<close>

definition tie_jets :: "jet list" where
  "tie_jets =
     [\<lparr>perp = 1, constituents = [\<lparr>px = - 1, py = 0, pz = 0, E = 1, user_index = 1\<rparr>]\<rparr>,
      \<lparr>perp = 1, constituents = [\<lparr>px = 1, py = 0, pz = 0, E = 1, user_index = 0\<rparr>]\<rparr>]"

definition separate_jets :: "real fastjet" where
  "separate_jets = \<lparr>JetDefinition = Inr,
     inclusive_jets = (\<lambda>R ps. Inr (map (\<lambda>p. \<lparr>perp = sqrt ((px p)\<^sup>2 + (py p)\<^sup>2),
                                               constituents = [p]\<rparr>) ps))\<rparr>"

definition duplicating_jets :: "real fastjet" where
  "duplicating_jets = \<lparr>JetDefinition = Inr,
     inclusive_jets = (\<lambda>R ps. Inr [\<lparr>perp = 1, constituents = ps @ ps\<rparr>])\<rparr>"

section \<open>The chunk loop\<close>

lemma event_loop_enumerate:
  "event_loop body start (enumerate n batch) s = run_events body (start + int n) batch s"
proof (induction batch arbitrary: n s)
  case Nil
  show ?case by simp
next
  case (Cons ev batch)
  have "start + int n + 1 = start + int (Suc n)" by simp
  then show ?case using Cons.IH [of "Suc n"] by (simp add: ac_simps split: sum.splits)
qed

lemma run_events_append:
  "run_events body k (a @ b) s =
     (case run_events body k a s of Inl e \<Rightarrow> Inl e
      | Inr s' \<Rightarrow> run_events body (k + int (length a)) b s')"
proof (induction a arbitrary: k s)
  case Nil
  show ?case by simp
next
  case (Cons ev a)
  have "k + 1 + int (length a) = k + int (length (ev # a))" by simp
  then show ?case using Cons.IH [of "k + 1"] by (simp add: ac_simps split: sum.splits)
qed

lemma slice_chunk:
  assumes "0 \<le> start" "start < int (length xs)" "0 < bs"
  shows "slice xs start (min (start + bs) (int (length xs))) =
         take (nat (min bs (int (length xs) - start))) (drop (nat start) xs)"
proof -
  have l: "slice_bound (length xs) start = nat start"
    using assms by (simp add: slice_bound_def)
  have h: "slice_bound (length xs) (min (start + bs) (int (length xs))) =
           nat (min (start + bs) (int (length xs)))"
    using assms by (auto simp: slice_bound_def min_def)
  have "nat (min (start + bs) (int (length xs))) - nat start =
        nat (min bs (int (length xs) - start))"
    using assms by (auto simp: min_def)
  then show ?thesis by (simp add: slice_def l h Let_def)
qed

lemma chunk_loop_run_events:
  "0 < bs \<Longrightarrow> length (data x) = n_events x \<Longrightarrow> 0 \<le> start \<Longrightarrow>
   chunk_loop body x bs (range_up start (int (n_events x)) bs) s =
   run_events body start (drop (nat start) (data x)) s"
proof (induction start "int (n_events x)" bs arbitrary: s rule: range_up.induct)
  case (1 start step)
  note pos = \<open>0 < step\<close> and wf = \<open>length (data x) = n_events x\<close> and nn = \<open>0 \<le> start\<close>
  show ?case
  proof (cases "step \<le> 0 \<or> int (n_events x) \<le> start")
    case True
    then have "int (n_events x) \<le> start" using pos by simp
    then have "drop (nat start) (data x) = []" using wf by simp
    moreover have "range_up start (int (n_events x)) step = []" using True by simp
    ultimately show ?thesis by simp
  next
    case False
    define m where "m = nat (min step (int (n_events x) - start))"
    define batch where "batch = take m (drop (nat start) (data x))"
    define rest where "rest = drop (nat (start + step)) (data x)"
    have lt: "start < int (length (data x))" using False wf by simp
    have sl: "slice (data x) start (min (start + step) (int (n_events x))) = batch"
      using slice_chunk [OF nn lt pos] wf by (simp add: batch_def m_def)
    have len: "length batch = m"
      using lt nn by (auto simp: batch_def m_def wf [symmetric] min_def)
    have split: "drop (nat start) (data x) = batch @ drop m (drop (nat start) (data x))"
      unfolding batch_def by (rule append_take_drop_id [symmetric])
    have tail: "run_events body (start + int m) (drop (m + nat start) (data x)) t =
                run_events body (start + step) rest t" for t
    proof (cases "step \<le> int (n_events x) - start")
      case True
      then have "int m = step" using pos by (simp add: m_def min_def)
      moreover have "m + nat start = nat (start + step)"
        using True pos nn by (simp add: m_def min_def nat_add_distrib)
      ultimately show ?thesis by (simp add: rest_def add.commute)
    next
      case False
      then have "drop (m + nat start) (data x) = []"
        using lt nn by (simp add: m_def min_def wf [symmetric])
      moreover have "rest = []"
        using False nn by (simp add: rest_def wf [symmetric])
      ultimately show ?thesis by simp
    qed
    have ih: "chunk_loop body x step (range_up (start + step) (int (n_events x)) step) t =
              run_events body (start + step) rest t" for t
      using "1.hyps" [OF False pos wf] nn pos by (simp add: rest_def)
    have unfold: "range_up start (int (n_events x)) step =
                  start # range_up (start + step) (int (n_events x)) step"
      using False by simp
    have "chunk_loop body x step (range_up start (int (n_events x)) step) s =
          (case run_events body start batch s of Inl e \<Rightarrow> Inl e
           | Inr s' \<Rightarrow> run_events body (start + step) rest s')"
      by (subst unfold) (simp add: sl event_loop_enumerate ih del: range_up.simps split: sum.splits)
    also have "\<dots> = run_events body start (drop (nat start) (data x)) s"
      by (subst split) (simp add: run_events_append len tail del: range_up.simps split: sum.splits)
    finally show ?thesis .
  qed
qed

lemma wf_example_x: "wf_array example_x"
  by (simp add: wf_array_def example_x_def)




lemma sort_events_by_cluster_sequential:
  assumes "0 < batch_size" and "wf_array x"
  shows "sort_events_by_cluster fj x R batch_size =
         bind (JetDefinition fj R) (\<lambda>jet_def.
         bind (run_events (write_event fj jet_def x) 0 (data x) (data (zeros_like x)))
           (\<lambda>sorted_x'. Inr (x\<lparr>data := sorted_x'\<rparr>)))"
proof -
  have len: "length (data x) = n_events x" using assms(2) by (simp add: wf_array_def)
  have "py_range 0 (int (n_events x)) batch_size = Inr (range_up 0 (int (n_events x)) batch_size)"
    using assms(1) by (simp add: py_range_def)
  then show ?thesis
    by (simp add: sort_events_by_cluster_def bind_def Let_def
          chunk_loop_run_events [OF assms(1) len, of 0] del: range_up.simps)
qed

lemma store_Inr:
  "store sx (int k) rows = Inr sx' \<longleftrightarrow> k < length sx \<and> sx' = sx[k := rows]"
  by (auto simp: store_def Let_def)

lemma run_events_write:
  "run_events (write_event fj jd x) (int k) evs sx = Inr sx' \<Longrightarrow>
   k + length evs \<le> length sx \<Longrightarrow>
   length sx' = length sx \<and>
   (\<forall>i < length evs.
      reorder_event fj jd (n_particles x) (feat_dim x) (evs ! i) = Inr (sx' ! (k + i))) \<and>
   (\<forall>j < k. sx' ! j = sx ! j)"
proof (induction evs arbitrary: k sx)
  case Nil
  then show ?case by simp
next
  case (Cons ev evs)
  from Cons.prems(1) obtain s1 where
    s1: "write_event fj jd x (int k) ev sx = Inr s1" and
    run: "run_events (write_event fj jd x) (int k + 1) evs s1 = Inr sx'"
    by (auto split: sum.splits)
  from s1 obtain rows where
    rows: "reorder_event fj jd (n_particles x) (feat_dim x) ev = Inr rows" and
    upd: "s1 = sx[k := rows]"
    by (auto simp: write_event_def bind_def store_Inr split: sum.splits)
  have "int k + 1 = int (Suc k)" by simp
  with run upd have
    rest: "run_events (write_event fj jd x) (int (Suc k)) evs (sx[k := rows]) = Inr sx'"
    by (simp only:)
  have le: "Suc k + length evs \<le> length (sx[k := rows])" using Cons.prems(2) by simp
  note ih = Cons.IH [OF rest le]
  have k: "sx' ! k = rows" using ih Cons.prems(2) by simp
  have "reorder_event fj jd (n_particles x) (feat_dim x) ((ev # evs) ! i) = Inr (sx' ! (k + i))"
    if "i < length (ev # evs)" for i
  proof (cases i)
    case 0
    then show ?thesis using rows k by simp
  next
    case (Suc i')
    then show ?thesis using ih that by simp
  qed
  moreover have "sx' ! j = sx ! j" if "j < k" for j
    using ih that by simp
  ultimately show ?case using ih by simp
qed

text \<open>
  C7. The chunk size has no effect on the result: for every array, every selector and
  every two positive chunk sizes (so also for chunks of one event and for one chunk of
  all events), the sorting step returns the same array, or fails with the same error.
\<close>

theorem chunk_size_has_no_effect:
  assumes "0 < b1" and "0 < b2" and "wf_array x"
  shows "sort_events_by_cluster fj x R b1 = sort_events_by_cluster fj x R b2
       \<and> main_sort argsort fj (a\<lparr>cluster_batch_size := b1\<rparr>) x =
         main_sort argsort fj (a\<lparr>cluster_batch_size := b2\<rparr>) x"
  using assms by (simp add: sort_events_by_cluster_sequential main_sort_def split: option.splits)

theorem chunk_size_has_no_effect_witness:
  "sort_events_by_cluster separate_jets example_x 0.4 1 =
   sort_events_by_cluster separate_jets example_x 0.4 3"
proof -
  have "0 < (1::int)" and "0 < (3::int)" by simp_all
  from chunk_size_has_no_effect [OF this wf_example_x] show ?thesis by (rule conjunct1)
qed

section \<open>The assembled index list of one event\<close>

lemma set_remaining: "set (remaining np si) = int ` {0..<np} - set si"
  by (auto simp: remaining_def)

lemma distinct_remaining: "distinct (remaining np si)"
  by (simp add: remaining_def distinct_map)

lemma sorted_remaining: "sorted (remaining np si)"
proof -
  have "sorted (map int [0..<np])"
    by (simp add: sorted_map sorted_wrt_iff_nth_less)
  then show ?thesis unfolding remaining_def by (rule sorted_wrt_filter)
qed

lemma card_range: "card (int ` {0..<np}) = np"
  by (simp add: card_image)

lemma length_remaining:
  "length (remaining np si) = np - card (int ` {0..<np} \<inter> set si)"
proof -
  have "length (remaining np si) = card (int ` {0..<np} - set si)"
    using distinct_card [OF distinct_remaining, of np si] by (simp add: set_remaining)
  also have "\<dots> = card (int ` {0..<np}) - card (int ` {0..<np} \<inter> set si)"
    by (simp add: card_Diff_subset_Int)
  finally show ?thesis by (simp add: card_range)
qed

lemma card_inter_le: "card (int ` {0..<np} \<inter> set si) \<le> length si"
proof -
  have "card (int ` {0..<np} \<inter> set si) \<le> card (set si)"
    by (rule card_mono) auto
  also have "\<dots> \<le> length si" by (rule card_length)
  finally show ?thesis .
qed

lemma card_inter_le_np: "card (int ` {0..<np} \<inter> set si) \<le> np"
proof -
  have "card (int ` {0..<np} \<inter> set si) \<le> card (int ` {0..<np})"
    by (rule card_mono) auto
  then show ?thesis by (simp add: card_range)
qed

lemma length_assembled_ge: "np \<le> length (si @ remaining np si)"
  using card_inter_le [of np si] by (simp add: length_remaining)

lemma length_assembled_duplicate:
  assumes "\<not> distinct si"
  shows "np < length (si @ remaining np si)"
proof -
  have "card (set si) < length si"
    using assms card_length [of si] card_distinct [of si] by (cases "card (set si) = length si") auto
  moreover have "card (int ` {0..<np} \<inter> set si) \<le> card (set si)"
    by (rule card_mono) auto
  ultimately show ?thesis using card_inter_le_np [of np si] by (simp add: length_remaining)
qed

lemma assembled_exact:
  assumes "length (si @ remaining np si) = np"
  shows "distinct (si @ remaining np si) \<and> set (si @ remaining np si) = int ` {0..<np}"
proof -
  have d: "distinct si" using assms length_assembled_duplicate [of si np] by auto
  have eq: "length si = card (int ` {0..<np} \<inter> set si)"
    using assms card_inter_le_np [of np si] by (simp add: length_remaining)
  have "card (set si) = card (int ` {0..<np} \<inter> set si)"
    using eq d by (simp add: distinct_card)
  then have "int ` {0..<np} \<inter> set si = set si"
    by (intro card_subset_eq) auto
  then have sub: "set si \<subseteq> int ` {0..<np}" by blast
  show ?thesis using d sub by (auto simp: distinct_remaining set_remaining)
qed

lemma fancy_index_Inr:
  "fancy_index event idxs = Inr rows \<longleftrightarrow>
     (\<forall>i \<in> set idxs. - int (length event) \<le> i \<and> i < int (length event)) \<and>
     rows = map (\<lambda>i. event ! nat (if i < 0 then i + int (length event) else i)) idxs"
  by (auto simp: fancy_index_def Let_def)

lemma reorder_event_Inr:
  assumes "length event = np" and "reorder_event fj jd np fd event = Inr rows"
  obtains ps jets where
    "build_pseudojets np fd event = Inr ps" and
    "inclusive_jets fj jd ps = Inr jets" and
    "distinct (sorted_indices np jets)" and
    "set (sorted_indices np jets) = int ` {0..<np}" and
    "rows = map (\<lambda>i. event ! nat i) (sorted_indices np jets)"
proof -
  from assms(2) obtain ps jets r where
    ps: "build_pseudojets np fd event = Inr ps" and
    jets: "inclusive_jets fj jd ps = Inr jets" and
    r: "fancy_index event (sorted_indices np jets) = Inr r" and
    a: "assign_rows np r = Inr rows"
    by (auto simp: reorder_event_def bind_def split: sum.splits)
  define si where "si = jet_indices (sorted_reverse perp jets)"
  have s: "sorted_indices np jets = si @ remaining np si"
    by (simp add: sorted_indices_def si_def Let_def)
  from r have range: "\<forall>i \<in> set (sorted_indices np jets). - int np \<le> i \<and> i < int np"
    and r_eq: "r = map (\<lambda>i. event ! nat (if i < 0 then i + int np else i)) (sorted_indices np jets)"
    by (simp_all add: fancy_index_Inr assms(1))
  have len_r: "length r = length (sorted_indices np jets)" by (simp add: r_eq)
  have len: "length (sorted_indices np jets) = np"
  proof (rule ccontr)
    assume ne: "length (sorted_indices np jets) \<noteq> np"
    with a len_r have one: "length (sorted_indices np jets) = 1"
      by (auto simp: assign_rows_def split: if_splits)
    with ne length_assembled_ge [of np si] have "np = 0" by (simp add: s)
    moreover from one obtain i where "i \<in> set (sorted_indices np jets)"
      by (cases "sorted_indices np jets") auto
    ultimately show False using range by auto
  qed
  then have ex: "distinct (sorted_indices np jets)" "set (sorted_indices np jets) = int ` {0..<np}"
    using assembled_exact [of si np] by (simp_all only: s)
  have "rows = r" using a len len_r by (simp add: assign_rows_def)
  also have "r = map (\<lambda>i. event ! nat i) (sorted_indices np jets)"
    unfolding r_eq using ex(2) by (intro map_cong) auto
  finally show thesis using that ps jets ex by blast
qed

lemma mset_jet_indices:
  "mset (jet_indices jets) =
   sum_mset (image_mset (\<lambda>j. mset (map user_index (constituents j))) (mset jets))"
  by (induction jets) (simp_all add: jet_indices_def)

lemma mset_sorted_reverse: "mset (sorted_reverse f xs) = mset xs"
  by (simp add: sorted_reverse_def)

lemma distinct_jet_indices_sorted:
  "distinct (jet_indices (sorted_reverse perp jets)) = distinct (jet_indices jets)"
  by (rule mset_eq_imp_distinct_iff) (simp add: mset_jet_indices mset_sorted_reverse)

lemma reorder_event_duplicate:
  assumes "length event = np" and
    "build_pseudojets np fd event = Inr ps" and
    "inclusive_jets fj jd ps = Inr jets" and
    "\<not> distinct (jet_indices jets)"
  shows "reorder_event fj jd np fd event = Inl IndexError \<or>
         reorder_event fj jd np fd event = Inl ValueError"
proof -
  define si where "si = jet_indices (sorted_reverse perp jets)"
  have s: "sorted_indices np jets = si @ remaining np si"
    by (simp add: sorted_indices_def si_def Let_def)
  have "\<not> distinct si" using assms(4) by (simp add: si_def distinct_jet_indices_sorted)
  then have long: "np < length (sorted_indices np jets)"
    unfolding s by (rule length_assembled_duplicate)
  show ?thesis
  proof (cases "fancy_index event (sorted_indices np jets)")
    case (Inl e)
    then have "e = IndexError" by (auto simp: fancy_index_def Let_def split: if_splits)
    with Inl show ?thesis using assms(2,3) by (simp add: reorder_event_def bind_def)
  next
    case (Inr r)
    then have range: "\<forall>i \<in> set (sorted_indices np jets). - int np \<le> i \<and> i < int np"
      and len_r: "length r = length (sorted_indices np jets)"
      by (auto simp: fancy_index_Inr assms(1))
    have "np \<noteq> 0"
    proof
      assume "np = 0"
      moreover from long obtain i where "i \<in> set (sorted_indices np jets)"
        by (cases "sorted_indices np jets") auto
      ultimately show False using range by auto
    qed
    with long len_r have "assign_rows np r = Inl ValueError"
      by (simp add: assign_rows_def)
    with Inr show ?thesis using assms(2,3) by (simp add: reorder_event_def bind_def)
  qed
qed

section \<open>The scalar keys\<close>

lemma map2_same: "map2 f (map g xs) (map h xs) = map (\<lambda>x. f (g x) (h x)) xs"
  by (induction xs) simp_all

lemma elementwise_maps:
  "elementwise f (map (map g) d) (map (map h) d) = map (map (\<lambda>r. f (g r) (h r))) d"
  by (simp add: elementwise_def map2_same)

lemma delta_R_key_Inr:
  "delta_R_key x = Inr key \<Longrightarrow> key = map (map (\<lambda>r. sqrt ((r ! 1)\<^sup>2 + (r ! 2)\<^sup>2))) (data x)"
  by (auto simp: delta_R_key_def column_def bind_def elementwise_maps split: if_splits)

lemma sort_key_of_Inr:
  assumes "sort_key_of sel x = Some (Inr key)"
  shows "key = map (map (row_key sel)) (data x)"
proof -
  consider "sel = ''pt''" | "sel = ''eta''" | "sel = ''phi''" | "sel = ''delta_R''" | "sel = ''kt''"
    using assms by (auto simp: sort_key_of_def split: if_splits)
  then show ?thesis
  proof cases
    case 1 then show ?thesis using assms
      by (auto simp: sort_key_of_def column_def row_key_def split: if_splits)
  next
    case 2 then show ?thesis using assms
      by (auto simp: sort_key_of_def column_def row_key_def split: if_splits)
  next
    case 3 then show ?thesis using assms
      by (auto simp: sort_key_of_def column_def row_key_def split: if_splits)
  next
    case 4 then show ?thesis using assms
      by (auto simp: sort_key_of_def row_key_def dest: delta_R_key_Inr)
  next
    case 5
    with assms obtain pt dr where "column x 0 = Inr pt" "delta_R_key x = Inr dr"
      "key = elementwise (\<lambda>a b. a * b) pt dr"
      by (auto simp: sort_key_of_def bind_def split: sum.splits)
    then show ?thesis using 5
      by (auto simp: column_def row_key_def elementwise_maps dest!: delta_R_key_Inr split: if_splits)
  qed
qed

lemma argsort_perm:
  "is_argsort argsort \<Longrightarrow> distinct (argsort ks) \<and> set (argsort ks) = {0..<length ks}"
  by (simp add: is_argsort_def)

lemma sorted_argsort: "is_argsort argsort \<Longrightarrow> sorted (map (\<lambda>i. ks ! i) (argsort ks))"
  by (simp add: is_argsort_def)

lemma length_argsort: "is_argsort argsort \<Longrightarrow> length (argsort ks) = length ks"
  using argsort_perm [of argsort ks] distinct_card [of "argsort ks"] by simp

lemma is_argsort_insertion: "is_argsort insertion_argsort"
  by (simp add: is_argsort_def insertion_argsort_def)

lemma sort_idx_perm:
  "is_argsort argsort \<Longrightarrow> p \<in> set (sort_idx argsort key) \<Longrightarrow>
   \<exists>ks \<in> set key. distinct p \<and> set p = {0..<length ks}"
  by (auto simp: sort_idx_def argsort_perm)

lemma wf_key_length:
  assumes "wf_array x" and "sort_key_of sel x = Some (Inr key)" and "ks \<in> set key"
  shows "length ks = n_particles x"
  using assms by (auto simp: wf_array_def dest!: sort_key_of_Inr)

lemma key_example: "sort_key_of ''pt'' example_x = Some (Inr [[5, 8], [2, 2], [3, 1]])"
  by (simp add: sort_key_of_def column_def example_x_def)

lemma idx_example:
  "sort_idx insertion_argsort [[5, 8], [2, 2], [3, 1]] = [[1, 0], [1, 0], [0, 1]]"
  by (simp add: sort_idx_def insertion_argsort_def)

lemma reorder_example:
  "reorder_event separate_jets 0.4 2 4 [[5, 0, 0, 10], [8, 1, 0, 11]] =
     Inr [[8, 1, 0, 11], [5, 0, 0, 10]]"
  by (simp add: reorder_event_def build_pseudojets_def event_column_def bind_def
        separate_jets_def sorted_indices_def sorted_reverse_def jet_indices_def
        remaining_def fancy_index_def assign_rows_def Let_def upt_conv_Cons)

section \<open>Permutations\<close>

text \<open>
  C1. Every permutation that is produced is a bijection over \<open>[0, n_particles)\<close>: each
  row of \<open>sort_idx\<close>, for each of the five scalar keys and whatever order \<open>np.argsort\<close>
  gives to equal keys, holds every slot index exactly once; and whenever the cluster path stores the rows of an event, the index list
  \<open>sorted_indices\<close> it has assembled for the event holds every index exactly once.
\<close>

theorem permutation_is_bijection:
  assumes "wf_array x"
  shows "(\<forall>key p. is_argsort argsort \<longrightarrow> sort_key_of sel x = Some (Inr key) \<longrightarrow>
            p \<in> set (sort_idx argsort key) \<longrightarrow>
            distinct p \<and> set p = {0..<n_particles x})
       \<and> (\<forall>event rows. event \<in> set (data x) \<longrightarrow>
            reorder_event fj jd (n_particles x) (feat_dim x) event = Inr rows \<longrightarrow>
            (\<exists>ps jets. build_pseudojets (n_particles x) (feat_dim x) event = Inr ps \<and>
               inclusive_jets fj jd ps = Inr jets \<and>
               distinct (sorted_indices (n_particles x) jets) \<and>
               set (sorted_indices (n_particles x) jets) = int ` {0..<n_particles x}))"
proof (intro conjI allI impI)
  fix key p
  assume a: "is_argsort argsort" and key: "sort_key_of sel x = Some (Inr key)"
    and p: "p \<in> set (sort_idx argsort key)"
  from sort_idx_perm [OF a p] obtain ks where
    "ks \<in> set key" "distinct p" "set p = {0..<length ks}" by blast
  with wf_key_length [OF assms key] show "distinct p" "set p = {0..<n_particles x}" by simp_all
next
  fix event rows
  assume "event \<in> set (data x)"
    and r: "reorder_event fj jd (n_particles x) (feat_dim x) event = Inr rows"
  with assms have "length event = n_particles x" by (simp add: wf_array_def)
  from reorder_event_Inr [OF this r]
  show "\<exists>ps jets. build_pseudojets (n_particles x) (feat_dim x) event = Inr ps \<and>
               inclusive_jets fj jd ps = Inr jets \<and>
               distinct (sorted_indices (n_particles x) jets) \<and>
               set (sorted_indices (n_particles x) jets) = int ` {0..<n_particles x}"
    by metis
qed

theorem permutation_is_bijection_witness:
  "distinct (sort_idx insertion_argsort [[5, 8], [2, 2], [3, 1]] ! 0) \<and>
   set (sort_idx insertion_argsort [[5, 8], [2, 2], [3, 1]] ! 0) = {0..<2} \<and>
   (\<exists>ps jets. build_pseudojets 2 4 [[5, 0, 0, 10], [8, 1, 0, 11]] = Inr ps \<and>
      inclusive_jets separate_jets 0.4 ps = Inr jets \<and>
      distinct (sorted_indices 2 jets) \<and>
      set (sorted_indices 2 jets) = int ` {0..<2})"
proof -
  note b = permutation_is_bijection
    [OF wf_example_x, of insertion_argsort "''pt''" separate_jets "0.4"]
  have "[1, 0] \<in> set (sort_idx insertion_argsort [[5, 8], [2, 2], [3, 1]])"
    by (simp add: idx_example)
  with b key_example is_argsort_insertion have "distinct [1, 0::nat] \<and> set [1, 0::nat] = {0..<n_particles example_x}"
    by blast
  then have scalar: "distinct (sort_idx insertion_argsort [[5, 8], [2, 2], [3, 1]] ! 0) \<and>
      set (sort_idx insertion_argsort [[5, 8], [2, 2], [3, 1]] ! 0) = {0..<2}"
    by (simp add: idx_example example_x_def)
  have "[[5, 0, 0, 10], [8, 1, 0, 11]] \<in> set (data example_x)"
    by (simp add: example_x_def)
  moreover have "reorder_event separate_jets 0.4 (n_particles example_x) (feat_dim example_x)
      [[5, 0, 0, 10], [8, 1, 0, 11]] = Inr [[8, 1, 0, 11], [5, 0, 0, 10]]"
    using reorder_example by (simp add: example_x_def)
  ultimately have "\<exists>ps jets.
      build_pseudojets (n_particles example_x) (feat_dim example_x)
        [[5, 0, 0, 10], [8, 1, 0, 11]] = Inr ps \<and>
      inclusive_jets separate_jets 0.4 ps = Inr jets \<and>
      distinct (sorted_indices (n_particles example_x) jets) \<and>
      set (sorted_indices (n_particles example_x) jets) = int ` {0..<n_particles example_x}"
    using b by blast
  then show ?thesis using scalar by (simp add: example_x_def)
qed

section \<open>The cluster path as a whole\<close>

lemma length_zeros_like: "length (data (zeros_like x)) = n_events x"
  by (simp add: zeros_like_def)

lemma sort_events_by_cluster_Inr:
  assumes "0 < batch_size" and "wf_array x" and
    "sort_events_by_cluster fj x R batch_size = Inr y"
  obtains jd where "JetDefinition fj R = Inr jd" and
    "n_events y = n_events x" and "n_particles y = n_particles x" and
    "feat_dim y = feat_dim x" and "length (data y) = n_events x" and
    "\<And>i. i < n_events x \<Longrightarrow>
       reorder_event fj jd (n_particles x) (feat_dim x) (data x ! i) = Inr (data y ! i)"
proof -
  have len: "length (data x) = n_events x" using assms(2) by (simp add: wf_array_def)
  from assms(3) obtain jd sx where
    jd: "JetDefinition fj R = Inr jd" and
    run: "run_events (write_event fj jd x) (int 0) (data x) (data (zeros_like x)) = Inr sx" and
    y: "y = x\<lparr>data := sx\<rparr>"
    unfolding sort_events_by_cluster_sequential [OF assms(1,2)]
    by (auto simp: bind_def split: sum.splits)
  have "0 + length (data x) \<le> length (data (zeros_like x))"
    by (simp add: len length_zeros_like)
  from run_events_write [OF run this]
  have "length sx = n_events x" and
    "\<And>i. i < n_events x \<Longrightarrow>
       reorder_event fj jd (n_particles x) (feat_dim x) (data x ! i) = Inr (sx ! i)"
    by (simp_all add: len length_zeros_like)
  with jd y show thesis using that [of jd] by simp
qed

text \<open>
  C4. If the jets of an event hold the same particle index more than once, the event is
  not stored: the rows selected by the assembled index list are more than the slot of
  the event has, so the assignment (or, for an event without rows, the indexing) raises,
  and the whole run of \<open>sort_events_by_cluster\<close> ends with that error. Nothing is dropped
  or deduplicated and no array is returned.
\<close>

theorem duplicate_membership_is_fatal:
  assumes "0 < batch_size" and "wf_array x" and "JetDefinition fj R = Inr jd" and
    "event \<in> set (data x)" and
    "build_pseudojets (n_particles x) (feat_dim x) event = Inr ps" and
    "inclusive_jets fj jd ps = Inr jets" and
    "\<not> distinct (jet_indices jets)"
  shows "(reorder_event fj jd (n_particles x) (feat_dim x) event = Inl IndexError \<or>
          reorder_event fj jd (n_particles x) (feat_dim x) event = Inl ValueError)
       \<and> (\<exists>e. sort_events_by_cluster fj x R batch_size = Inl e)"
proof
  have "length event = n_particles x" using assms(2,4) by (simp add: wf_array_def)
  from reorder_event_duplicate [OF this assms(5,6,7)]
  show ev: "reorder_event fj jd (n_particles x) (feat_dim x) event = Inl IndexError \<or>
          reorder_event fj jd (n_particles x) (feat_dim x) event = Inl ValueError" .
  have len: "length (data x) = n_events x" using assms(2) by (simp add: wf_array_def)
  show "\<exists>e. sort_events_by_cluster fj x R batch_size = Inl e"
  proof (cases "sort_events_by_cluster fj x R batch_size")
    case (Inl e)
    then show ?thesis by blast
  next
    case (Inr y)
    from sort_events_by_cluster_Inr [OF assms(1,2) Inr] obtain jd' where
      jd': "JetDefinition fj R = Inr jd'" and
      all: "\<And>i. i < n_events x \<Longrightarrow>
         reorder_event fj jd' (n_particles x) (feat_dim x) (data x ! i) = Inr (data y ! i)"
      by blast
    from jd' assms(3) have "jd' = jd" by simp
    moreover from assms(4) obtain i where "i < n_events x" "data x ! i = event"
      by (auto simp: in_set_conv_nth len)
    ultimately have "reorder_event fj jd (n_particles x) (feat_dim x) event = Inr (data y ! i)"
      using all by auto
    with ev show ?thesis by auto
  qed
qed

theorem duplicate_membership_is_fatal_witness:
  "(reorder_event duplicating_jets 0.4 2 4 [[5, 0, 0, 10], [8, 1, 0, 11]] = Inl IndexError \<or>
    reorder_event duplicating_jets 0.4 2 4 [[5, 0, 0, 10], [8, 1, 0, 11]] = Inl ValueError)
   \<and> (\<exists>e. sort_events_by_cluster duplicating_jets example_x 0.4 1 = Inl e)"
proof -
  define ps where "ps = map (\<lambda>j. \<lparr>px = [5, 8] ! j * cos ([0, 0] ! j),
      py = [5, 8] ! j * sin ([0, 0] ! j), pz = [5, 8] ! j * sinh ([0, 1] ! j),
      E = [5, 8] ! j * cosh ([0, 1] ! j), user_index = int j\<rparr>) [0..<2]"
  have pos: "0 < (1::int)" by simp
  have jd: "JetDefinition duplicating_jets 0.4 = Inr 0.4"
    by (simp add: duplicating_jets_def)
  have ev: "[[5, 0, 0, 10], [8, 1, 0, 11]] \<in> set (data example_x)"
    by (simp add: example_x_def)
  have b: "build_pseudojets (n_particles example_x) (feat_dim example_x)
      [[5, 0, 0, 10], [8, 1, 0, 11]] = Inr ps"
    by (simp add: build_pseudojets_def event_column_def bind_def example_x_def ps_def)
  have j: "inclusive_jets duplicating_jets 0.4 ps = Inr [\<lparr>perp = 1, constituents = ps @ ps\<rparr>]"
    by (simp add: duplicating_jets_def)
  have d: "\<not> distinct (jet_indices [\<lparr>perp = 1, constituents = ps @ ps\<rparr>])"
    by (simp add: jet_indices_def ps_def upt_conv_Cons)
  from duplicate_membership_is_fatal [OF pos wf_example_x jd ev b j d]
  show ?thesis by (simp add: example_x_def)
qed

section \<open>Rows are carried through whole\<close>

lemma length_perm: "distinct p \<Longrightarrow> set p = {0..<n} \<Longrightarrow> length p = n"
  using distinct_card [of p] by simp

lemma permuted_event_wf:
  assumes "distinct p" and "set p = {0..<length ev}" and "\<forall>r \<in> set ev. length r = fd"
  shows "length (map (\<lambda>j. ev ! j) p) = length ev \<and>
         (\<forall>r \<in> set (map (\<lambda>j. ev ! j) p). length r = fd)"
  using assms length_perm [OF assms(1,2)] by auto

lemma take_along_axis_Inr:
  assumes "take_along_axis x idx = Inr y"
  shows "y = x\<lparr>data := map2 (\<lambda>ev p. map (\<lambda>j. ev ! j) p) (data x) idx\<rparr>"
  using assms by (auto simp: take_along_axis_def split: if_splits)

lemma permutation_rows:
  assumes "is_argsort argsort" and "wf_array x" and "sort_key_of sel x = Some (Inr key)" and
    "p \<in> set (sort_idx argsort key)"
  shows "distinct p \<and> set p = {0..<n_particles x}"
  using sort_idx_perm [OF assms(1,4)] wf_key_length [OF assms(2,3)] by auto

lemma scalar_rows:
  assumes a: "is_argsort argsort" and wf: "wf_array x" and
    key: "sort_key_of sel x = Some (Inr key)" and
    y: "scalar_sort argsort x key = Inr y" and e: "e < n_events x"
  shows "distinct (sort_idx argsort key ! e) \<and>
         set (sort_idx argsort key ! e) = {0..<n_particles x} \<and>
         data y ! e = map (\<lambda>j. data x ! e ! j) (sort_idx argsort key ! e)"
proof -
  have len: "length (data x) = n_events x" using wf by (simp add: wf_array_def)
  have k: "key = map (map (row_key sel)) (data x)" by (rule sort_key_of_Inr [OF key])
  then have lk: "length key = n_events x" by (simp add: len)
  have "sort_idx argsort key ! e \<in> set (sort_idx argsort key)"
    using e lk by (simp add: sort_idx_def)
  with permutation_rows [OF a wf key] have "distinct (sort_idx argsort key ! e)"
    "set (sort_idx argsort key ! e) = {0..<n_particles x}" by simp_all
  moreover have "data y ! e = map (\<lambda>j. data x ! e ! j) (sort_idx argsort key ! e)"
    using take_along_axis_Inr [OF y [unfolded scalar_sort_def]] e lk len
    by (simp add: sort_idx_def)
  ultimately show ?thesis by simp
qed

lemma scalar_sort_succeeds:
  assumes a: "is_argsort argsort" and wf: "wf_array x" and
    key: "sort_key_of sel x = Some (Inr key)"
  shows "\<exists>y. scalar_sort argsort x key = Inr y"
proof -
  have len: "length (data x) = n_events x" using wf by (simp add: wf_array_def)
  have "length (sort_idx argsort key) = n_events x"
    using sort_key_of_Inr [OF key] len by (simp add: sort_idx_def)
  moreover have "\<forall>p \<in> set (sort_idx argsort key). \<forall>j \<in> set p. j < n_particles x"
    using permutation_rows [OF a wf key] by auto
  ultimately show ?thesis by (simp add: scalar_sort_def take_along_axis_def)
qed


lemma wf_array_nth:
  assumes "wf_array x" and "e < n_events x"
  shows "length (data x ! e) = n_particles x" and "\<forall>r \<in> set (data x ! e). length r = feat_dim x"
proof -
  have "data x ! e \<in> set (data x)" using assms by (simp add: wf_array_def)
  with assms(1) show "length (data x ! e) = n_particles x"
    and "\<forall>r \<in> set (data x ! e). length r = feat_dim x"
    by (simp_all add: wf_array_def)
qed






section \<open>The order of the scalar sorts\<close>

lemma rev_argsort_order:
  assumes "is_argsort argsort" and "i < j" and "j < length ks"
  shows "ks ! (rev (argsort ks) ! j) \<le> ks ! (rev (argsort ks) ! i)"
proof -
  let ?n = "length ks"
  note len = length_argsort [OF assms(1), of ks]
  have i': "rev (argsort ks) ! i = argsort ks ! (?n - Suc i)"
    and j': "rev (argsort ks) ! j = argsort ks ! (?n - Suc j)"
    using assms(2,3) by (simp_all add: rev_nth len)
  have lt: "?n - Suc j < ?n - Suc i" "?n - Suc i < ?n" using assms(2,3) by simp_all
  have "map (\<lambda>i. ks ! i) (argsort ks) ! (?n - Suc j) \<le>
        map (\<lambda>i. ks ! i) (argsort ks) ! (?n - Suc i)"
    using sorted_argsort [OF assms(1), of ks] lt by (intro sorted_nth_mono) (simp_all add: len)
  then show ?thesis using lt by (simp add: i' j' len)
qed

lemma wf_tie_x: "wf_array tie_x"
  by (simp add: wf_array_def tie_x_def)

lemma wf_spec_x: "wf_array spec_x"
  by (simp add: wf_array_def spec_x_def)

lemma key_nth:
  assumes "wf_array x" and "sort_key_of sel x = Some (Inr key)" and "e < n_events x"
  shows "key ! e = map (row_key sel) (data x ! e)" and "length (key ! e) = n_particles x"
    and "sort_idx argsort key ! e = rev (argsort (key ! e))"
proof -
  have len: "length (data x) = n_events x" using assms(1) by (simp add: wf_array_def)
  have k: "key = map (map (row_key sel)) (data x)" by (rule sort_key_of_Inr [OF assms(2)])
  show "key ! e = map (row_key sel) (data x ! e)" using assms(3) len by (simp add: k)
  then show "length (key ! e) = n_particles x"
    using wf_array_nth(1) [OF assms(1,3)] by simp
  show "sort_idx argsort key ! e = rev (argsort (key ! e))"
    using assms(3) len by (simp add: sort_idx_def k)
qed

lemma key_tie: "sort_key_of ''pt'' tie_x = Some (Inr [[2, 2]])"
  by (simp add: sort_key_of_def column_def tie_x_def)

lemma idx_tie: "sort_idx insertion_argsort [[2, 2]] = [[1, 0]]"
  by (simp add: sort_idx_def insertion_argsort_def)

lemma main_tie:
  "main_sort insertion_argsort fj (example_args ''pt'' 1024) tie_x =
     Inr (tie_x\<lparr>data := [[[2, 0, 0, 21], [2, 0, 0, 20]]]\<rparr>)"
  by (simp add: main_sort_def example_args_def key_tie bind_def scalar_sort_def idx_tie
      take_along_axis_def) (simp add: tie_x_def)

lemma key_spec: "sort_key_of ''pt'' spec_x = Some (Inr [[5, 2, 8]])"
  by (simp add: sort_key_of_def column_def spec_x_def)

lemma idx_spec: "sort_idx insertion_argsort [[5, 2, 8]] = [[2, 0, 1]]"
  by (simp add: sort_idx_def insertion_argsort_def)

lemma main_spec:
  "main_sort insertion_argsort fj (example_args ''pt'' 1024) spec_x =
     Inr (spec_x\<lparr>data := [[[8, 0, 0], [5, 0, 0], [2, 0, 0]]]\<rparr>)"
  by (simp add: main_sort_def example_args_def key_spec bind_def scalar_sort_def idx_spec
      take_along_axis_def) (simp add: spec_x_def)

text \<open>
  C2 (as amended). For every scalar key and every event, the permutation orders the
  slots by key descending: along it the keys never increase, whatever order
  \<open>np.argsort\<close> gives to equal keys. Nothing more holds of slots with equal keys: the
  code has no step that breaks ties by slot index or keeps their original order.
\<close>

theorem scalar_sort_is_descending:
  assumes "is_argsort argsort" and "wf_array x" and "sort_key_of sel x = Some (Inr key)" and
    "e < n_events x" and "i < j" and "j < n_particles x"
  shows "key ! e ! (sort_idx argsort key ! e ! j) \<le> key ! e ! (sort_idx argsort key ! e ! i)"
proof -
  note k = key_nth [OF assms(2,3,4)]
  have j: "j < length (key ! e)" using assms(6) k(2) by simp
  from rev_argsort_order [OF assms(1,5) j] show ?thesis by (simp add: k(3))
qed

theorem scalar_sort_is_descending_witness:
  "[[5, 2, 8::real]] ! 0 ! (sort_idx insertion_argsort [[5, 2, 8]] ! 0 ! 1) \<le>
     [[5, 2, 8::real]] ! 0 ! (sort_idx insertion_argsort [[5, 2, 8]] ! 0 ! 0) \<and>
   sort_idx insertion_argsort [[5, 2, 8]] ! 0 = [2, 0, 1]"
proof -
  have e: "0 < n_events spec_x" and j: "1 < n_particles spec_x" by (simp_all add: spec_x_def)
  have ij: "(0::nat) < 1" by simp
  from scalar_sort_is_descending [OF is_argsort_insertion wf_spec_x key_spec e ij j]
  show ?thesis by (simp add: idx_spec)
qed

text \<open>
  The claim as stated fails on \<open>tie_x\<close>: its two particles have the same \<open>pt\<close>,
  \<open>np.argsort\<close> gives \<open>[0, 1]\<close>, the permutation is \<open>[1, 0]\<close>, and the two rows are
  exchanged.
\<close>

theorem equal_keys_swap_counterexample:
  "sort_key_of ''pt'' tie_x = Some (Inr [[2, 2]]) \<and>
   insertion_argsort [2, 2] = [0, 1] \<and>
   sort_idx insertion_argsort [[2, 2]] = [[1, 0]] \<and>
   \<not> sort_idx insertion_argsort [[2, 2]] ! 0 ! 0 < sort_idx insertion_argsort [[2, 2]] ! 0 ! 1 \<and>
   data tie_x = [[[2, 0, 0, 20], [2, 0, 0, 21]]] \<and>
   main_sort insertion_argsort separate_jets (example_args ''pt'' 1024) tie_x =
     Inr (tie_x\<lparr>data := [[[2, 0, 0, 21], [2, 0, 0, 20]]]\<rparr>)"
  by (simp add: key_tie idx_tie main_tie) (simp add: tie_x_def insertion_argsort_def)





lemma scalar_sort_shape:
  assumes a: "is_argsort argsort" and wf: "wf_array x" and
    key: "sort_key_of sel x = Some (Inr key)" and
    y: "scalar_sort argsort x key = Inr y"
  shows "n_events y = n_events x" and "n_particles y = n_particles x" and
    "feat_dim y = feat_dim x" and "wf_array y"
proof -
  have len: "length (data x) = n_events x" using wf by (simp add: wf_array_def)
  have lk: "length key = n_events x" using sort_key_of_Inr [OF key] len by simp
  note eq = take_along_axis_Inr [OF y [unfolded scalar_sort_def]]
  show s: "n_events y = n_events x" "n_particles y = n_particles x" "feat_dim y = feat_dim x"
    by (simp_all add: eq)
  have ly: "length (data y) = n_events x" by (simp add: eq len lk sort_idx_def)
  show "wf_array y"
    unfolding wf_array_def
  proof (intro conjI ballI)
    show "length (data y) = n_events y" using ly s by simp
  next
    fix ev assume "ev \<in> set (data y)"
    then obtain e where e: "e < n_events x" "ev = data y ! e"
      using ly by (auto simp: in_set_conv_nth)
    from scalar_rows [OF a wf key y e(1)] have p: "distinct (sort_idx argsort key ! e)"
      "set (sort_idx argsort key ! e) = {0..<n_particles x}"
      "ev = map (\<lambda>j. data x ! e ! j) (sort_idx argsort key ! e)" using e(2) by simp_all
    note src = wf_array_nth [OF wf e(1)]
    from permuted_event_wf [of "sort_idx argsort key ! e" "data x ! e" "feat_dim x"] p src
    have w: "length ev = n_particles x \<and> (\<forall>r \<in> set ev. length r = feat_dim x)" by simp
    then show "length ev = n_particles y" using s by simp
    fix r assume "r \<in> set ev"
    with w show "length r = feat_dim y" using s by simp
  qed
qed




section \<open>The order of the jets\<close>

lemma sorted_reverse_descending: "sorted (rev (map f (sorted_reverse f xs)))"
  by (simp add: sorted_reverse_def rev_map)

lemma sorted_reverse_stable:
  "filter (\<lambda>y. f y = v) (sorted_reverse f xs) = filter (\<lambda>y. f y = v) xs"
proof -
  have "filter (\<lambda>y. f y = v) (sorted_reverse f xs) =
        rev (filter (\<lambda>y. f y = v) (sort_key f (rev xs)))"
    by (simp add: sorted_reverse_def rev_filter)
  also have "\<dots> = rev (filter (\<lambda>y. f y = v) (rev xs))"
    by (simp only: sort_key_stable)
  also have "\<dots> = filter (\<lambda>y. f y = v) xs"
    by (simp add: rev_filter)
  finally show ?thesis .
qed

text \<open>
  C8 (as amended). For every event of the cluster path the assembled order is the
  constituents of the jets in descending \<open>perp\<close> (the list of their \<open>perp\<close> never
  increases), followed by every index of \<open>[0, n_particles)\<close> that no jet holds, in
  ascending order. Jets of equal \<open>perp\<close> stay in the order in which the clustering
  returned them; the first constituent takes no part in the order.
\<close>

theorem jets_descending_ties_in_library_order:
  "sorted_indices np jets =
     jet_indices (sorted_reverse perp jets) @ remaining np (jet_indices (sorted_reverse perp jets))
   \<and> mset (sorted_reverse perp jets) = mset jets
   \<and> sorted (rev (map perp (sorted_reverse perp jets)))
   \<and> filter (\<lambda>j. perp j = v) (sorted_reverse perp jets) = filter (\<lambda>j. perp j = v) jets
   \<and> sorted (remaining np si) \<and> distinct (remaining np si)
   \<and> set (remaining np si) = int ` {0..<np} - set si"
  by (simp add: sorted_indices_def Let_def mset_sorted_reverse sorted_reverse_descending
      sorted_reverse_stable sorted_remaining distinct_remaining set_remaining)

text \<open>
  The claim as stated fails on \<open>tie_jets\<close>: the two jets have the same \<open>perp\<close> and stay
  as returned, the jet of particle 1 before the jet of particle 0.
\<close>

theorem jet_ties_keep_library_order_counterexample:
  "perp (sorted_reverse perp tie_jets ! 0) = perp (sorted_reverse perp tie_jets ! 1) \<and>
   user_index (hd (constituents (sorted_reverse perp tie_jets ! 0))) = 1 \<and>
   user_index (hd (constituents (sorted_reverse perp tie_jets ! 1))) = 0 \<and>
   sorted_indices 2 tie_jets = [1, 0]"
  by (simp add: tie_jets_def sorted_reverse_def sorted_indices_def jet_indices_def
      remaining_def Let_def upt_conv_Cons)

section \<open>What is not validated\<close>

lemma range_down_empty: "0 \<le> stop \<Longrightarrow> range_down 0 stop step = []"
  by simp

lemma sort_events_by_cluster_nonpositive:
  assumes "batch_size \<le> 0"
  shows "sort_events_by_cluster fj x R batch_size =
           (case JetDefinition fj R of
              Inl e \<Rightarrow> Inl e
            | Inr jet_def \<Rightarrow> if batch_size = 0 then Inl ValueError else Inr (zeros_like x))"
proof (cases "JetDefinition fj R")
  case (Inl e)
  then show ?thesis by (simp add: sort_events_by_cluster_def bind_def)
next
  case (Inr jd)
  show ?thesis
  proof (cases "batch_size = 0")
    case True
    then show ?thesis using Inr by (simp add: sort_events_by_cluster_def bind_def py_range_def)
  next
    case False
    with assms have "py_range 0 (int (n_events x)) batch_size = Inr []"
      by (simp add: py_range_def)
    then show ?thesis using Inr False
      by (simp add: sort_events_by_cluster_def bind_def zeros_like_def del: range_down.simps)
  qed
qed

lemma zeros_like_tie_x: "zeros_like tie_x = tie_x\<lparr>data := [[[0, 0, 0, 0], [0, 0, 0, 0]]]\<rparr>"
  by (simp add: zeros_like_def tie_x_def eval_nat_numeral)

lemma JetDefinition_separate_jets: "JetDefinition separate_jets R = Inr R"
  by (simp add: separate_jets_def)

text \<open>
  C6. A chunk size that is not positive is to be a fatal error and must never give a
  silently produced array. The code does not do this. What \<open>sort_events_by_cluster\<close>
  returns for such a chunk size is: the error of \<open>JetDefinition\<close> if the library raises
  one; for the chunk size 0 the ValueError of \<open>range\<close>; and for a negative chunk size no
  error at all, but the array of \<open>np.zeros_like\<close> with no event written to it, although
  the function is to cluster each event and sort its particles by cluster order.
\<close>

theorem chunk_size_is_not_validated:
  assumes "batch_size \<le> 0"
  shows "sort_events_by_cluster fj x R batch_size =
           (case JetDefinition fj R of
              Inl e \<Rightarrow> Inl e
            | Inr jet_def \<Rightarrow> if batch_size = 0 then Inl ValueError else Inr (zeros_like x))"
  using assms by (rule sort_events_by_cluster_nonpositive)

theorem chunk_size_is_not_validated_witness:
  "sort_events_by_cluster separate_jets tie_x 0.4 (- 1) = Inr (zeros_like tie_x) \<and>
   sort_events_by_cluster separate_jets tie_x 0.4 0 = Inl ValueError"
proof -
  have a: "(- 1::int) \<le> 0" and b: "(0::int) \<le> 0" by simp_all
  have "sort_events_by_cluster separate_jets tie_x 0.4 (- 1) = Inr (zeros_like tie_x)"
    by (simp only: chunk_size_is_not_validated [OF a] JetDefinition_separate_jets sum.case)
      simp
  moreover have "sort_events_by_cluster separate_jets tie_x 0.4 0 = Inl ValueError"
    by (simp only: chunk_size_is_not_validated [OF b] JetDefinition_separate_jets sum.case)
      simp
  ultimately show ?thesis by (rule conjI)
qed

text \<open>
  The sorting step of \<open>main\<close> with the cluster selector and the chunk size \<open>-1\<close>: an
  array of zeros and no error.
\<close>

lemma negative_chunk_size_returns_zeros:
  "main_sort insertion_argsort separate_jets (example_args ''cluster'' (- 1)) tie_x =
     Inr (tie_x\<lparr>data := [[[0, 0, 0, 0], [0, 0, 0, 0]]]\<rparr>)"
proof -
  have a: "(- 1::int) \<le> 0" by simp
  have "sort_events_by_cluster separate_jets tie_x R (- 1) = Inr (zeros_like tie_x)" for R
    by (simp only: sort_events_by_cluster_nonpositive [OF a] JetDefinition_separate_jets
        sum.case) simp
  then show ?thesis
    by (simp add: main_sort_def sort_key_of_def example_args_def zeros_like_tie_x)
qed

lemma main_sort_num_particles:
  "main_sort argsort fj (a\<lparr>num_particles := n\<rparr>) x = main_sort argsort fj a x"
  by (simp add: main_sort_def split: option.splits)

lemma sort_key_of_exists:
  assumes "3 \<le> feat_dim x" and "sel \<in> {''pt'', ''eta'', ''phi'', ''delta_R'', ''kt''}"
  shows "\<exists>key. sort_key_of sel x = Some (Inr key)"
proof -
  have c: "\<exists>key. column x c = Inr key" if "c < 3" for c
    using assms(1) that by (simp add: column_def)
  have c0: "column x 0 = Inr (map (map (\<lambda>r. r ! 0)) (data x))"
    using assms(1) by (simp add: column_def)
  have d: "\<exists>key. delta_R_key x = Inr key"
    using assms(1) by (simp add: delta_R_key_def column_def bind_def)
  consider "sel = ''pt''" | "sel = ''eta''" | "sel = ''phi''" | "sel = ''delta_R''" | "sel = ''kt''"
    using assms(2) by auto
  then show ?thesis
  proof cases
    case 1 then show ?thesis using c [of 0] by (simp add: sort_key_of_def)
  next
    case 2 then show ?thesis using c [of 1] by (simp add: sort_key_of_def)
  next
    case 3 then show ?thesis using c [of 2] by (simp add: sort_key_of_def)
  next
    case 4 then show ?thesis using d by (simp add: sort_key_of_def)
  next
    case 5 then show ?thesis using d by (auto simp: sort_key_of_def c0 bind_def)
  qed
qed

text \<open>
  C5 (as amended). The declared \<open>num_particles\<close> is not compared with the second
  dimension of the loaded array: the sorting step does not depend on it, and for a
  well-formed array with the three columns \<open>pt\<close>, \<open>eta\<close>, \<open>phi\<close> every scalar selector
  returns an array with the particle count of the input, whatever was declared.
\<close>

theorem declared_particle_count_is_not_checked:
  "main_sort argsort fj (a\<lparr>num_particles := n\<rparr>) x = main_sort argsort fj a x
   \<and> (is_argsort argsort \<and> wf_array x \<and> 3 \<le> feat_dim x \<and>
      sort_by a \<in> {''pt'', ''eta'', ''phi'', ''delta_R'', ''kt''} \<longrightarrow>
        (\<exists>y. main_sort argsort fj (a\<lparr>num_particles := n\<rparr>) x = Inr y \<and>
             n_particles y = n_particles x))"
proof (intro conjI impI)
  show "main_sort argsort fj (a\<lparr>num_particles := n\<rparr>) x = main_sort argsort fj a x"
    by (rule main_sort_num_particles)
next
  assume h: "is_argsort argsort \<and> wf_array x \<and> 3 \<le> feat_dim x \<and>
      sort_by a \<in> {''pt'', ''eta'', ''phi'', ''delta_R'', ''kt''}"
  then obtain key where key: "sort_key_of (sort_by a) x = Some (Inr key)"
    using sort_key_of_exists by blast
  from h have ok: "is_argsort argsort" and wf: "wf_array x" by simp_all
  from scalar_sort_succeeds [OF ok wf key] obtain y where
    y: "scalar_sort argsort x key = Inr y" by blast
  have "main_sort argsort fj (a\<lparr>num_particles := n\<rparr>) x = Inr y"
    by (simp add: main_sort_def key bind_def y)
  with scalar_sort_shape(2) [OF ok wf key y]
  show "\<exists>y. main_sort argsort fj (a\<lparr>num_particles := n\<rparr>) x = Inr y \<and>
      n_particles y = n_particles x"
    by blast
qed

theorem declared_particle_count_is_not_checked_witness:
  "\<exists>y. main_sort insertion_argsort separate_jets
         ((example_args ''pt'' 1024)\<lparr>num_particles := 5\<rparr>) spec_x = Inr y \<and>
       n_particles y = n_particles spec_x"
proof -
  have "is_argsort insertion_argsort \<and> wf_array spec_x \<and> 3 \<le> feat_dim spec_x \<and>
      sort_by (example_args ''pt'' 1024) \<in> {''pt'', ''eta'', ''phi'', ''delta_R'', ''kt''}"
    by (simp add: wf_spec_x is_argsort_insertion) (simp add: spec_x_def example_args_def)
  with declared_particle_count_is_not_checked
    [where argsort = insertion_argsort and fj = separate_jets and
      a = "example_args ''pt'' 1024" and n = 5 and x = spec_x]
  show ?thesis by blast
qed

text \<open>
  The claim as stated fails for a declared count of 5 and an array of 3 particles per
  event: the events are sorted and no error is raised.
\<close>

theorem mismatched_particle_count_counterexample:
  "num_particles ((example_args ''pt'' 1024)\<lparr>num_particles := 5\<rparr>) \<noteq>
     int (n_particles spec_x) \<and>
   main_sort insertion_argsort separate_jets
     ((example_args ''pt'' 1024)\<lparr>num_particles := 5\<rparr>) spec_x =
     Inr (spec_x\<lparr>data := [[[8, 0, 0], [5, 0, 0], [2, 0, 0]]]\<rparr>)"
  by (simp add: main_sort_num_particles main_spec) (simp add: spec_x_def)

end
